theory Spec2Isabelle
  imports Main "HOL-Library.Word"
begin

section \<open>Values shared by the package: errors and JSON documents\<close>

text \<open>
  The errors the package returns or passes on.  \<open>ErrOutOfRange\<close> is the package's own
  variable; the others are the error values of the Go standard library that reach the
  callers of this package: \<open>strconv\<close>'s \<open>*NumError\<close> (function name, the text parsed
  and \<open>ErrSyntax\<close> or \<open>ErrRange\<close>), \<open>encoding/json\<close>'s \<open>*SyntaxError\<close>,
  \<open>*UnmarshalTypeError\<close> (with its description of the JSON value) and
  \<open>*MarshalerError\<close> (which wraps the error a \<open>MarshalJSON\<close> method returned), and
  the errors of \<open>time.Time\<close>'s JSON methods.
\<close>

datatype strconv_err = ErrSyntax | ErrRange

datatype error =
    ErrOutOfRange
  | NumError string string strconv_err
  | SyntaxError
  | UnmarshalTypeError string
  | MarshalerError error
  | TimeYearOutOfRange
  | TimeParseError

text \<open>
  A JSON text is represented by its syntax tree.  A number keeps its literal, as
  \<open>encoding/json\<close> hands the literal to \<open>strconv\<close>; a string holds the bytes of the Go
  string it is unquoted to; an object keeps its members in the order of the text, duplicates
  included.  The \<open>raw []byte\<close> argument of an \<open>UnmarshalJSON\<close> method is a
  \<open>json option\<close>: \<open>None\<close> stands for bytes that are not a JSON text.
\<close>

datatype json =
    JNull
  | JBool bool
  | JNum string
  | JStr string
  | JArr "json list"
  | JObj "(string \<times> json) list"

type_synonym raw = "json option"

section \<open>strconv\<close>

text \<open>
  Writing an unsigned integer in a base, most significant digit first, with the digits
  taken from a table: the loop shared by \<open>strconv.FormatUint\<close> (lower-case table)
  and by the integer verbs of \<open>fmt\<close> (\<open>%X\<close> uses the upper-case table).  No sign,
  no leading zero, one digit for zero.
\<close>

function formatBits :: "string \<Rightarrow> nat \<Rightarrow> nat \<Rightarrow> string" where
  "formatBits tab u base =
     (if base < 2 \<or> u < base then [tab ! u]
      else formatBits tab (u div base) base @ [tab ! (u mod base)])"
  by pat_completeness auto
termination
  by (relation "measure (\<lambda>(tab, u, base). u)") auto

declare formatBits.simps [simp del]

definition digits :: string where
  "digits = ''0123456789abcdefghijklmnopqrstuvwxyz''"

definition FormatUint :: "nat \<Rightarrow> nat \<Rightarrow> string" where
  "FormatUint u base = formatBits digits u base"

text \<open>
  \<open>strconv.ParseUint(s, base, bitSize)\<close> for an explicit base \<open>2 \<le> base \<le> 36\<close> (the only
  calls made here are with base 16 and base 10): no sign, no prefix and no underscore is
  accepted.  \<open>n\<close> is the \<open>uint64\<close> accumulator, so the sum wraps at \<open>2 ^ 64\<close> and the
  wrap is detected as the source does.
\<close>

definition lower :: "nat \<Rightarrow> nat" where
  "lower c = (if 65 \<le> c \<and> c \<le> 90 then c + 32 else c)"

definition digit_val :: "char \<Rightarrow> nat option" where
  "digit_val ch =
     (let c = of_char ch :: nat in
      if 48 \<le> c \<and> c \<le> 57 then Some (c - 48)
      else if 97 \<le> lower c \<and> lower c \<le> 122 then Some (lower c - 97 + 10)
      else None)"

definition maxUint64 :: nat where
  "maxUint64 = 2 ^ 64 - 1"

fun ParseUint_loop :: "nat \<Rightarrow> nat \<Rightarrow> string \<Rightarrow> nat \<Rightarrow> string \<Rightarrow> error + nat" where
  "ParseUint_loop base maxVal s0 n [] = Inr n"
| "ParseUint_loop base maxVal s0 n (c # cs) =
     (case digit_val c of
        None \<Rightarrow> Inl (NumError ''ParseUint'' s0 ErrSyntax)
      | Some d \<Rightarrow>
          if d \<ge> base then Inl (NumError ''ParseUint'' s0 ErrSyntax)
          else if n \<ge> maxUint64 div base + 1 then Inl (NumError ''ParseUint'' s0 ErrRange)
          else
            let n' = (n * base) mod 2 ^ 64;
                n1 = (n' + d) mod 2 ^ 64
            in if n1 < n' \<or> n1 > maxVal then Inl (NumError ''ParseUint'' s0 ErrRange)
               else ParseUint_loop base maxVal s0 n1 cs)"

definition ParseUint :: "string \<Rightarrow> nat \<Rightarrow> nat \<Rightarrow> error + nat" where
  "ParseUint s base bitSize =
     (if s = [] then Inl (NumError ''ParseUint'' s ErrSyntax)
      else ParseUint_loop base (2 ^ bitSize - 1) s 0 s)"

section \<open>Status\<close>

type_synonym Status = "8 word"

definition Free :: Status where "Free = 0"
definition Busy :: Status where "Busy = 1"
definition Occupied :: Status where "Occupied = 2"

definition inRange :: "Status \<Rightarrow> bool" where
  "inRange s = (s \<le> Occupied)"

definition forceRange :: "Status \<Rightarrow> Status" where
  "forceRange s = (if \<not> inRange s then Free else s)"

definition Status_String :: "Status \<Rightarrow> string" where
  "Status_String s = FormatUint (unat (forceRange s)) 10"

definition Pretty :: "Status \<Rightarrow> string" where
  "Pretty s =
     (let f = forceRange s in
      if f = Busy then ''Busy''
      else if f = Occupied then ''Occupied''
      else if f = Free then ''Free''
      else [])"

text \<open>\<open>json.Marshal\<close> of a \<open>uint8\<close>: the decimal literal.\<close>

definition json_Marshal_uint8 :: "8 word \<Rightarrow> error + json" where
  "json_Marshal_uint8 v = Inr (JNum (FormatUint (unat v) 10))"

definition Status_MarshalJSON :: "Status \<Rightarrow> error + json" where
  "Status_MarshalJSON s =
     (if \<not> inRange s then Inl ErrOutOfRange else json_Marshal_uint8 s)"

text \<open>
  \<open>json.Unmarshal(raw, t)\<close> for \<open>t *uint8\<close>: bytes that are not JSON give a
  \<open>SyntaxError\<close>; \<open>null\<close> leaves \<open>*t\<close> as it is; a number literal is read by
  \<open>ParseUint(s, 10, 64)\<close> and must fit eight bits; everything else, and a literal that
  does not parse or fit, is an \<open>UnmarshalTypeError\<close>.  The result is the error and the
  value of \<open>*t\<close> afterwards.
\<close>

definition json_Unmarshal_uint8 :: "raw \<Rightarrow> 8 word \<Rightarrow> error option \<times> 8 word" where
  "json_Unmarshal_uint8 r t =
     (case r of
        None \<Rightarrow> (Some SyntaxError, t)
      | Some JNull \<Rightarrow> (None, t)
      | Some (JNum s) \<Rightarrow>
          (case ParseUint s 10 64 of
             Inl e \<Rightarrow> (Some (UnmarshalTypeError (''number '' @ s)), t)
           | Inr n \<Rightarrow>
               if n > 255 then (Some (UnmarshalTypeError (''number '' @ s)), t)
               else (None, of_nat n))
      | Some (JStr s) \<Rightarrow> (Some (UnmarshalTypeError ''string''), t)
      | Some (JBool b) \<Rightarrow> (Some (UnmarshalTypeError ''bool''), t)
      | Some (JArr xs) \<Rightarrow> (Some (UnmarshalTypeError ''array''), t)
      | Some (JObj ms) \<Rightarrow> (Some (UnmarshalTypeError ''object''), t))"

text \<open>\<open>Status.UnmarshalJSON\<close>: the error returned and the receiver \<open>*s\<close> afterwards.\<close>

definition Status_UnmarshalJSON :: "raw \<Rightarrow> Status \<Rightarrow> error option \<times> Status" where
  "Status_UnmarshalJSON r s =
     (case json_Unmarshal_uint8 r 0 of
        (Some err, t) \<Rightarrow> (Some err, s)
      | (None, t) \<Rightarrow>
          if \<not> inRange t then (Some ErrOutOfRange, Free)
          else (None, t))"


section \<open>fmt: the verbs used by Resource\<close>

text \<open>\<open>%X\<close> writes a \<open>uint64\<close> in upper-case hexadecimal with no padding;
  \<open>%016X\<close> pads it with zeros on the left to sixteen characters.\<close>

definition udigits :: string where
  "udigits = ''0123456789ABCDEFX''"

definition fmt_X :: "64 word \<Rightarrow> string" where
  "fmt_X u = formatBits udigits (unat u) 16"


section \<open>time.Time\<close>

text \<open>
  A \<open>time.Time\<close> is seen through its accessors: \<open>Date()\<close>, \<open>Clock()\<close>,
  \<open>Nanosecond()\<close> and the offset of \<open>Zone()\<close> in seconds east of UTC.  The name of the
  location is not part of the model.  Every value of the Go type satisfies \<open>wf_Time\<close>.
\<close>

record Time =
  Year :: int
  Month :: nat
  Day :: nat
  Hour :: nat
  Minute :: nat
  Second :: nat
  Nanosecond :: nat
  ZoneOffset :: int

definition isLeap :: "int \<Rightarrow> bool" where
  "isLeap y = (y mod 4 = 0 \<and> (y mod 100 \<noteq> 0 \<or> y mod 400 = 0))"

definition daysIn :: "nat \<Rightarrow> int \<Rightarrow> nat" where
  "daysIn m y =
     (if m = 2 \<and> isLeap y then 29
      else [31, 28, 31, 30, 31, 30, 31, 31, 30, 31, 30, 31] ! (m - 1))"

definition wf_Time :: "Time \<Rightarrow> bool" where
  "wf_Time t =
     (1 \<le> Month t \<and> Month t \<le> 12 \<and> 1 \<le> Day t \<and> Day t \<le> daysIn (Month t) (Year t)
      \<and> Hour t < 24 \<and> Minute t < 60 \<and> Second t < 60 \<and> Nanosecond t < 1000000000)"

text \<open>The zero value \<open>time.Time{}\<close>: January 1, year 1, 00:00:00 UTC.\<close>

definition zeroTime :: Time where
  "zeroTime = \<lparr>Year = 1, Month = 1, Day = 1, Hour = 0, Minute = 0, Second = 0,
     Nanosecond = 0, ZoneOffset = 0\<rparr>"

text \<open>\<open>appendInt\<close> of package time: a sign for a negative number, then the decimal
  digits padded with zeros to the width.\<close>

definition appendInt :: "int \<Rightarrow> nat \<Rightarrow> string" where
  "appendInt x width =
     (let ds = formatBits digits (nat \<bar>x\<bar>) 10
      in (if x < 0 then ''-'' else []) @ replicate (width - length ds) (CHR ''0'') @ ds)"

text \<open>The zone of the layout element \<open>Z07:00\<close>: \<open>Z\<close> for UTC, otherwise sign, hours and
  minutes; Go's division of the offset by 60 truncates towards zero.\<close>

definition formatZone :: "int \<Rightarrow> string" where
  "formatZone off =
     (if off = 0 then ''Z''
      else
        let zone = sgn off * (\<bar>off\<bar> div 60)
        in (if zone < 0 then ''-'' else ''+'')
           @ appendInt (\<bar>zone\<bar> div 60) 2 @ '':'' @ appendInt (\<bar>zone\<bar> mod 60) 2)"

text \<open>The fraction of the layout element \<open>.999999999\<close>: nothing for zero, otherwise a
  point and nine digits with the trailing zeros removed.\<close>

fun trimZeros :: "string \<Rightarrow> string" where
  "trimZeros [] = []"
| "trimZeros (c # cs) =
     (let r = trimZeros cs in if r = [] \<and> c = CHR ''0'' then [] else c # r)"

definition formatNano :: "nat \<Rightarrow> string" where
  "formatNano ns = (if ns = 0 then [] else ''.'' @ trimZeros (appendInt (int ns) 9))"

definition formatDateTime :: "Time \<Rightarrow> string" where
  "formatDateTime t =
     appendInt (Year t) 4 @ ''-'' @ appendInt (int (Month t)) 2 @ ''-''
     @ appendInt (int (Day t)) 2 @ ''T'' @ appendInt (int (Hour t)) 2 @ '':''
     @ appendInt (int (Minute t)) 2 @ '':'' @ appendInt (int (Second t)) 2"


definition Format_RFC3339Nano :: "Time \<Rightarrow> string" where
  "Format_RFC3339Nano t =
     formatDateTime t @ formatNano (Nanosecond t) @ formatZone (ZoneOffset t)"

text \<open>\<open>Time.MarshalJSON\<close>: a year outside 0..9999 is an error, otherwise the JSON string
  of the RFC 3339 text with nanoseconds.\<close>

definition Time_MarshalJSON :: "Time \<Rightarrow> error + json" where
  "Time_MarshalJSON t =
     (if Year t < 0 \<or> Year t \<ge> 10000 then Inl TimeYearOutOfRange
      else Inr (JStr (Format_RFC3339Nano t)))"

text \<open>
  Reading an RFC 3339 timestamp, as \<open>parseRFC3339\<close> of package time does: fixed columns
  for date and clock, each number checked against its range, an optional fraction of which
  nine digits count, then \<open>Z\<close> or a signed \<open>hh:mm\<close>.
\<close>

definition isDigit :: "char \<Rightarrow> bool" where
  "isDigit c = (48 \<le> (of_char c :: nat) \<and> (of_char c :: nat) \<le> 57)"

fun atoi :: "nat \<Rightarrow> string \<Rightarrow> nat option" where
  "atoi x [] = Some x"
| "atoi x (c # cs) =
     (if isDigit c then atoi (x * 10 + (of_char c - 48)) cs else None)"

definition parseUint_in :: "string \<Rightarrow> nat \<Rightarrow> nat \<Rightarrow> nat option" where
  "parseUint_in s lo hi =
     (case atoi 0 s of
        None \<Rightarrow> None
      | Some x \<Rightarrow> if x < lo \<or> hi < x then None else Some x)"

definition slice :: "string \<Rightarrow> nat \<Rightarrow> nat \<Rightarrow> string" where
  "slice s i j = take (j - i) (drop i s)"

definition parseNanoseconds :: "string \<Rightarrow> nat \<Rightarrow> nat option" where
  "parseNanoseconds v nbytes =
     (let n = (if nbytes > 10 then 10 else nbytes);
          v' = (if nbytes > 10 then take 10 v else v)
      in case atoi 0 (slice v' 1 n) of
           None \<Rightarrow> None
         | Some ns \<Rightarrow> Some (ns * 10 ^ (10 - n)))"

definition parseZone :: "string \<Rightarrow> int option" where
  "parseZone s =
     (if s = ''Z'' then Some 0
      else if length s \<noteq> 6 then None
      else
        case parseUint_in (slice s 1 3) 0 23 of
          None \<Rightarrow> None
        | Some hr \<Rightarrow>
            (case parseUint_in (slice s 4 6) 0 59 of
               None \<Rightarrow> None
             | Some mm \<Rightarrow>
                 if \<not> ((s ! 0 = CHR ''-'' \<or> s ! 0 = CHR ''+'') \<and> s ! 3 = CHR '':'') then None
                 else
                   let zoneOffset = (int hr * 60 + int mm) * 60
                   in Some (if s ! 0 = CHR ''-'' then zoneOffset * (-1) else zoneOffset)))"

definition parseRFC3339 :: "string \<Rightarrow> Time option" where
  "parseRFC3339 s =
     (if length s < 19 then None
      else
        case parseUint_in (slice s 0 4) 0 9999 of None \<Rightarrow> None | Some y \<Rightarrow>
        case parseUint_in (slice s 5 7) 1 12 of None \<Rightarrow> None | Some m \<Rightarrow>
        case parseUint_in (slice s 8 10) 1 (daysIn m (int y)) of None \<Rightarrow> None | Some d \<Rightarrow>
        case parseUint_in (slice s 11 13) 0 23 of None \<Rightarrow> None | Some h \<Rightarrow>
        case parseUint_in (slice s 14 16) 0 59 of None \<Rightarrow> None | Some mi \<Rightarrow>
        case parseUint_in (slice s 17 19) 0 59 of None \<Rightarrow> None | Some sec \<Rightarrow>
        if \<not> (s ! 4 = CHR ''-'' \<and> s ! 7 = CHR ''-'' \<and> s ! 10 = CHR ''T''
                \<and> s ! 13 = CHR '':'' \<and> s ! 16 = CHR '':'') then None
        else
          let r = drop 19 s;
              frac = (length r \<ge> 2 \<and> r ! 0 = CHR ''.'' \<and> isDigit (r ! 1));
              n = (if frac then 2 + length (takeWhile isDigit (drop 2 r)) else 0);
              ns = (if frac then parseNanoseconds r n else Some 0);
              z = drop n r
          in case ns of None \<Rightarrow> None | Some nsec \<Rightarrow>
             case parseZone z of None \<Rightarrow> None | Some off \<Rightarrow>
               Some \<lparr>Year = int y, Month = m, Day = d, Hour = h, Minute = mi, Second = sec,
                     Nanosecond = nsec, ZoneOffset = off\<rparr>)"

text \<open>
  \<open>Time.UnmarshalJSON\<close>: \<open>null\<close> is ignored, a value that is not a string is an error,
  and a string is parsed; a failed parse assigns the zero time.  The string is given as its
  text between the quotes.  The result is the error and the receiver afterwards.
\<close>

definition Time_UnmarshalJSON :: "json \<Rightarrow> Time \<Rightarrow> error option \<times> Time" where
  "Time_UnmarshalJSON v t =
     (case v of
        JNull \<Rightarrow> (None, t)
      | JStr s \<Rightarrow>
          (case parseRFC3339 s of
             None \<Rightarrow> (Some TimeParseError, zeroTime)
           | Some t' \<Rightarrow> (None, t'))
      | _ \<Rightarrow> (Some TimeParseError, t))"


section \<open>encoding/json: strings, member names, the struct of Resource\<close>

text \<open>
  \<open>utf8.DecodeRuneInString\<close>, as far as its second result goes: the number of bytes of
  the first rune of a string, and 1 for a byte that starts no valid encoding.
  \<open>first_utf8\<close> is the table \<open>first\<close> with \<open>acceptRanges\<close>: for a leading byte,
  the length of the encoding and the range of the second byte.
\<close>

definition first_utf8 :: "nat \<Rightarrow> (nat \<times> nat \<times> nat) option" where
  "first_utf8 b =
     (if 194 \<le> b \<and> b \<le> 223 then Some (2, 128, 191)
      else if b = 224 then Some (3, 160, 191)
      else if 225 \<le> b \<and> b \<le> 236 then Some (3, 128, 191)
      else if b = 237 then Some (3, 128, 159)
      else if 238 \<le> b \<and> b \<le> 239 then Some (3, 128, 191)
      else if b = 240 then Some (4, 144, 191)
      else if 241 \<le> b \<and> b \<le> 243 then Some (4, 128, 191)
      else if b = 244 then Some (4, 128, 143)
      else None)"

definition DecodeRune_size :: "string \<Rightarrow> nat" where
  "DecodeRune_size s =
     (case s of
        [] \<Rightarrow> 0
      | c # cs \<Rightarrow>
          (case first_utf8 (of_char c) of
             None \<Rightarrow> 1
           | Some (sz, lo, hi) \<Rightarrow>
               if length s < sz then 1
               else
                 let s1 = of_char (s ! 1) :: nat
                 in if s1 < lo \<or> hi < s1 then 1
                    else if sz \<le> 2 then 2
                    else
                      let s2 = of_char (s ! 2) :: nat
                      in if s2 < 128 \<or> 191 < s2 then 1
                         else if sz \<le> 3 then 3
                         else
                           let s3 = of_char (s ! 3) :: nat
                           in if s3 < 128 \<or> 191 < s3 then 1 else 4))"

text \<open>\<open>utf8.ValidString\<close>.\<close>

function ValidString :: "string \<Rightarrow> bool" where
  "ValidString [] = True"
| "ValidString (c # cs) =
     (if (of_char c :: nat) < 128 then ValidString cs
      else
        let size = DecodeRune_size (c # cs)
        in if size = 1 then False else ValidString (drop (size - 1) cs))"
  by pat_completeness auto
termination
  by (relation "measure length") auto

text \<open>
  The Go string that a string value is read back as after \<open>json.Marshal\<close> has written
  it: the encoder copies valid UTF-8 (its escapes are undone by the decoder) and writes
  U+FFFD, the replacement character, for every byte that starts no valid encoding.
\<close>

definition RuneError_bytes :: string where
  "RuneError_bytes = [CHR 0xEF, CHR 0xBF, CHR 0xBD]"

function json_string :: "string \<Rightarrow> string" where
  "json_string [] = []"
| "json_string (c # cs) =
     (if (of_char c :: nat) < 128 then c # json_string cs
      else
        let size = DecodeRune_size (c # cs)
        in if size = 1 then RuneError_bytes @ json_string cs
           else take size (c # cs) @ json_string (drop (size - 1) cs))"
  by pat_completeness auto
termination
  by (relation "measure length") auto

text \<open>
  Matching a member name of the JSON object with a field of the struct: the names are
  compared after case folding.  \<open>foldName\<close> folds what can fold to an ASCII letter: the
  lower-case letters, the long s (U+017F, bytes C5 BF) and the Kelvin sign (U+212A, bytes
  E2 84 AA).  The four field names fold to four different strings, so a member name
  matches at most one field and the preference for an exact match changes nothing.
\<close>

function foldName :: "string \<Rightarrow> string" where
  "foldName [] = []"
| "foldName (c # cs) =
     (let b = of_char c :: nat
      in if 97 \<le> b \<and> b \<le> 122 then char_of (b - 32) # foldName cs
         else if b = 0xC5 \<and> length cs \<ge> 1 \<and> cs ! 0 = CHR 0xBF
           then CHR ''S'' # foldName (drop 1 cs)
         else if b = 0xE2 \<and> length cs \<ge> 2 \<and> cs ! 0 = CHR 0x84 \<and> cs ! 1 = CHR 0xAA
           then CHR ''K'' # foldName (drop 2 cs)
         else c # foldName cs)"
  by pat_completeness auto
termination
  by (relation "measure length") auto

datatype field = F_Id | F_FriendlyName | F_Status | F_Since

definition field_of_key :: "string \<Rightarrow> field option" where
  "field_of_key key =
     (let k = foldName key
      in if k = foldName ''Id'' then Some F_Id
         else if k = foldName ''FriendlyName'' then Some F_FriendlyName
         else if k = foldName ''Status'' then Some F_Status
         else if k = foldName ''Since'' then Some F_Since
         else None)"

section \<open>Resource\<close>

record Resource =
  Id_r :: "64 word"
  FriendlyName :: string
  Status :: Status
  Since :: Time


text \<open>The anonymous struct of \<open>MarshalJSON\<close> and of \<open>UnmarshalJSON\<close>.\<close>

record tmpResource =
  tmp_Id :: string
  tmp_FriendlyName :: string
  tmp_Status :: Status
  tmp_Since :: Time

text \<open>
  \<open>json.Marshal\<close> of the struct of \<open>MarshalJSON\<close>: the members \<open>id\<close>,
  \<open>friendlyName\<close>, \<open>status\<close> and \<open>since\<close> in this order; the status and the time
  are written by their own \<open>MarshalJSON\<close>, whose error stops the encoding and comes back
  wrapped in a \<open>MarshalerError\<close>, with no bytes.
\<close>

definition json_Marshal_tmp :: "tmpResource \<Rightarrow> error + json" where
  "json_Marshal_tmp tmp =
     (case Status_MarshalJSON (tmp_Status tmp) of
        Inl e \<Rightarrow> Inl (MarshalerError e)
      | Inr js \<Rightarrow>
          (case Time_MarshalJSON (tmp_Since tmp) of
             Inl e \<Rightarrow> Inl (MarshalerError e)
           | Inr jt \<Rightarrow>
               Inr (JObj [(''id'', JStr (json_string (tmp_Id tmp))),
                          (''friendlyName'', JStr (json_string (tmp_FriendlyName tmp))),
                          (''status'', js),
                          (''since'', jt)])))"

definition Resource_MarshalJSON :: "Resource \<Rightarrow> error + json" where
  "Resource_MarshalJSON r =
     json_Marshal_tmp \<lparr>tmp_Id = fmt_X (Id_r r), tmp_FriendlyName = FriendlyName r,
       tmp_Status = Status r, tmp_Since = Since r\<rparr>"

text \<open>
  \<open>json.Unmarshal\<close> into the struct of \<open>UnmarshalJSON\<close>.  The members are read in the
  order of the text; a member that matches no field is skipped.  A string field takes a
  JSON string, ignores \<open>null\<close> and records an \<open>UnmarshalTypeError\<close> for anything else:
  the decoder keeps the first such error, goes on, and returns it at the end.  The status
  and the time are read by their own \<open>UnmarshalJSON\<close>, whose error stops the decoding
  and is returned as it is.
\<close>

definition describe :: "json \<Rightarrow> string" where
  "describe v =
     (case v of JNull \<Rightarrow> ''null'' | JBool b \<Rightarrow> ''bool'' | JNum s \<Rightarrow> ''number''
      | JStr s \<Rightarrow> ''string'' | JArr xs \<Rightarrow> ''array'' | JObj ms \<Rightarrow> ''object'')"

definition saveError :: "error \<Rightarrow> error option \<Rightarrow> error option" where
  "saveError e saved = (case saved of None \<Rightarrow> Some e | Some e0 \<Rightarrow> Some e0)"

definition decode_string :: "json \<Rightarrow> string \<Rightarrow> error option \<times> string" where
  "decode_string v cur =
     (case v of
        JStr s \<Rightarrow> (None, s)
      | JNull \<Rightarrow> (None, cur)
      | _ \<Rightarrow> (Some (UnmarshalTypeError (describe v)), cur))"

text \<open>
  One member of the object: \<open>Inl\<close> is the error that stops the decoding, with the
  struct as it is then; \<open>Inr\<close> is the struct and the recorded error to go on with.
\<close>

definition decode_member ::
  "string \<Rightarrow> json \<Rightarrow> tmpResource \<Rightarrow> error option
     \<Rightarrow> (error \<times> tmpResource) + (tmpResource \<times> error option)"
where
  "decode_member k v tmp saved =
     (case field_of_key k of
        None \<Rightarrow> Inr (tmp, saved)
      | Some F_Id \<Rightarrow>
          (case decode_string v (tmp_Id tmp) of
             (Some e, s) \<Rightarrow> Inr (tmp, saveError e saved)
           | (None, s) \<Rightarrow> Inr (tmp\<lparr>tmp_Id := s\<rparr>, saved))
      | Some F_FriendlyName \<Rightarrow>
          (case decode_string v (tmp_FriendlyName tmp) of
             (Some e, s) \<Rightarrow> Inr (tmp, saveError e saved)
           | (None, s) \<Rightarrow> Inr (tmp\<lparr>tmp_FriendlyName := s\<rparr>, saved))
      | Some F_Status \<Rightarrow>
          (case Status_UnmarshalJSON (Some v) (tmp_Status tmp) of
             (Some e, s) \<Rightarrow> Inl (e, tmp\<lparr>tmp_Status := s\<rparr>)
           | (None, s) \<Rightarrow> Inr (tmp\<lparr>tmp_Status := s\<rparr>, saved))
      | Some F_Since \<Rightarrow>
          (case Time_UnmarshalJSON v (tmp_Since tmp) of
             (Some e, t) \<Rightarrow> Inl (e, tmp\<lparr>tmp_Since := t\<rparr>)
           | (None, t) \<Rightarrow> Inr (tmp\<lparr>tmp_Since := t\<rparr>, saved)))"

fun decode_members ::
  "(string \<times> json) list \<Rightarrow> tmpResource \<Rightarrow> error option
     \<Rightarrow> (error \<times> tmpResource) + (tmpResource \<times> error option)"
where
  "decode_members [] tmp saved = Inr (tmp, saved)"
| "decode_members ((k, v) # ms) tmp saved =
     (case decode_member k v tmp saved of
        Inl stop \<Rightarrow> Inl stop
      | Inr (tmp', saved') \<Rightarrow> decode_members ms tmp' saved')"

definition json_Unmarshal_tmp :: "raw \<Rightarrow> tmpResource \<Rightarrow> error option \<times> tmpResource" where
  "json_Unmarshal_tmp r tmp =
     (case r of
        None \<Rightarrow> (Some SyntaxError, tmp)
      | Some (JObj ms) \<Rightarrow>
          (case decode_members ms tmp None of
             Inl (e, tmp') \<Rightarrow> (Some e, tmp')
           | Inr (tmp', saved) \<Rightarrow> (saved, tmp'))
      | Some JNull \<Rightarrow> (None, tmp)
      | Some v \<Rightarrow> (Some (UnmarshalTypeError (describe v)), tmp))"

text \<open>The struct that \<open>new\<close> allocates: every field at its zero value.\<close>

definition zero_tmp :: tmpResource where
  "zero_tmp = \<lparr>tmp_Id = [], tmp_FriendlyName = [], tmp_Status = 0, tmp_Since = zeroTime\<rparr>"

text \<open>\<open>Resource.UnmarshalJSON\<close>: the error returned and the receiver \<open>*r\<close> afterwards.\<close>

definition Resource_UnmarshalJSON :: "raw \<Rightarrow> Resource \<Rightarrow> error option \<times> Resource" where
  "Resource_UnmarshalJSON r res =
     (case json_Unmarshal_tmp r zero_tmp of
        (Some err, tmp) \<Rightarrow> (Some err, res)
      | (None, tmp) \<Rightarrow>
          let res1 = res\<lparr>FriendlyName := tmp_FriendlyName tmp, Status := tmp_Status tmp,
                          Since := tmp_Since tmp\<rparr>;
              tid = (if length (tmp_Id tmp) = 0 then ''0'' else tmp_Id tmp)
          in case ParseUint tid 16 64 of
               Inl err \<Rightarrow> (Some err, res1)
             | Inr n \<Rightarrow> (None, res1\<lparr>Id_r := of_nat n\<rparr>))"

section \<open>Facts about strconv\<close>

lemma ParseUint_loop_snoc:
  "ParseUint_loop b m s0 n (xs @ [c]) =
     (case ParseUint_loop b m s0 n xs of Inl e \<Rightarrow> Inl e | Inr k \<Rightarrow> ParseUint_loop b m s0 k [c])"
proof (induction xs arbitrary: n)
  case Nil
  show ?case by simp
next
  case (Cons x xs)
  show ?case
    unfolding append_Cons ParseUint_loop.simps(2)[of _ _ _ _ x] Let_def Cons.IH
    by (simp split: option.split)
qed

lemma ParseUint_loop_single:
  assumes "digit_val c = Some d" "d < base" "k * base + d \<le> m" "m < 2 ^ 64" "2 \<le> base"
  shows "ParseUint_loop base m s0 k [c] = Inr (k * base + d)"
proof -
  have kb: "k * base + d < 2 ^ 64" using assms by simp
  hence kb': "k * base < 2 ^ 64" by simp
  have "k * base \<le> maxUint64" using kb' by (simp add: maxUint64_def)
  hence "k \<le> maxUint64 div base" using assms(5)
    by (simp add: less_eq_div_iff_mult_less_eq)
  hence c: "\<not> k \<ge> maxUint64 div base + 1" by simp
  have m1: "(k * base) mod 2 ^ 64 = k * base" using kb' by simp
  have m2: "(k * base + d) mod 2 ^ 64 = k * base + d" using kb by simp
  show ?thesis
    unfolding ParseUint_loop.simps Let_def m1 m2 using assms c by simp
qed

lemma ParseUint_loop_single_over:
  assumes "digit_val c = Some d" "d < base" "2 ^ 64 \<le> k * base + d" "base \<le> 36"
  shows "ParseUint_loop base (2 ^ 64 - 1) s0 k [c] = Inl (NumError ''ParseUint'' s0 ErrRange)"
proof (cases "k \<ge> maxUint64 div base + 1")
  case True
  then show ?thesis using assms by simp
next
  case False
  have b0: "0 < base" using assms(2) by simp
  from False have "k \<le> maxUint64 div base" by simp
  hence "k * base \<le> maxUint64" using b0 by (simp add: less_eq_div_iff_mult_less_eq)
  hence kb: "k * base < 2 ^ 64" by (simp add: maxUint64_def)
  hence m1: "(k * base) mod 2 ^ 64 = k * base" by simp
  have lt2: "k * base + d < 2 * 2 ^ 64" using kb assms(2,4) by simp
  have "(k * base + d) mod 2 ^ 64 = k * base + d - 2 ^ 64"
    using assms(3) lt2 by (simp add: mod_if)
  hence m2: "(k * base + d) mod 2 ^ 64 < k * base" using assms(2,3,4) kb by simp
  show ?thesis
    unfolding ParseUint_loop.simps Let_def m1 using assms False m2 by simp
qed

lemma formatBits_small: "u < base \<Longrightarrow> formatBits tab u base = [tab ! u]"
  by (simp add: formatBits.simps)

lemma formatBits_step:
  "2 \<le> base \<Longrightarrow> base \<le> u \<Longrightarrow>
   formatBits tab u base = formatBits tab (u div base) base @ [tab ! (u mod base)]"
  by (subst formatBits.simps) simp

lemma ParseUint_loop_formatBits:
  assumes tab: "\<forall>d<base. digit_val (tab ! d) = Some d"
    and base: "2 \<le> base" and m: "m < 2 ^ 64"
  shows "u \<le> m \<Longrightarrow> ParseUint_loop base m s0 0 (formatBits tab u base) = Inr u"
proof (induction u rule: less_induct)
  case (less u)
  show ?case
  proof (cases "u < base")
    case True
    have "ParseUint_loop base m s0 0 [tab ! u] = Inr (0 * base + u)"
      by (rule ParseUint_loop_single) (use True tab base m less.prems in auto)
    then show ?thesis using True by (simp add: formatBits_small)
  next
    case False
    have f: "formatBits tab u base = formatBits tab (u div base) base @ [tab ! (u mod base)]"
      using False base by (simp add: formatBits_step)
    have lt: "u div base < u" using False base by (simp add: div_less_dividend)
    have le: "u div base \<le> m" using lt less.prems by simp
    have ih: "ParseUint_loop base m s0 0 (formatBits tab (u div base) base) = Inr (u div base)"
      by (rule less.IH[OF lt le])
    have md: "u mod base < base" using base by simp
    have st: "ParseUint_loop base m s0 (u div base) [tab ! (u mod base)] = Inr (u div base * base + u mod base)"
      by (rule ParseUint_loop_single) (use tab md base m less.prems in auto)
    show ?thesis unfolding f ParseUint_loop_snoc ih using st by simp
  qed
qed

lemma ParseUint_loop_formatBits_over:
  assumes tab: "\<forall>d<base. digit_val (tab ! d) = Some d"
    and base: "2 \<le> base" "base \<le> 36"
  shows "2 ^ 64 \<le> u \<Longrightarrow>
    ParseUint_loop base (2 ^ 64 - 1) s0 0 (formatBits tab u base) = Inl (NumError ''ParseUint'' s0 ErrRange)"
proof (induction u rule: less_induct)
  case (less u)
  have ub: "base \<le> u" using less.prems base by simp
  have f: "formatBits tab u base = formatBits tab (u div base) base @ [tab ! (u mod base)]"
    using ub base by (simp add: formatBits_step)
  have lt: "u div base < u" using ub base by (simp add: div_less_dividend)
  have md: "u mod base < base" using base by simp
  show ?case
  proof (cases "2 ^ 64 \<le> u div base")
    case True
    show ?thesis unfolding f ParseUint_loop_snoc less.IH[OF lt True] by simp
  next
    case False
    hence le: "u div base \<le> 2 ^ 64 - 1" by simp
    have ih: "ParseUint_loop base (2 ^ 64 - 1) s0 0 (formatBits tab (u div base) base) = Inr (u div base)"
      by (rule ParseUint_loop_formatBits[OF tab base(1) _ le]) simp
    have st: "ParseUint_loop base (2 ^ 64 - 1) s0 (u div base) [tab ! (u mod base)]
        = Inl (NumError ''ParseUint'' s0 ErrRange)"
      by (rule ParseUint_loop_single_over[where d = "u mod base"]) (use tab md base less.prems in auto)
    show ?thesis unfolding f ParseUint_loop_snoc ih using st by simp
  qed
qed

lemma formatBits_nonempty: "formatBits tab u base \<noteq> []"
  by (subst formatBits.simps) simp

lemma digit_val_digits_tab:
  "map digit_val digits = map Some [0, 1, 2, 3, 4, 5, 6, 7, 8, 9, 10, 11, 12, 13, 14, 15, 16, 17,
     18, 19, 20, 21, 22, 23, 24, 25, 26, 27, 28, 29, 30, 31, 32, 33, 34, 35]"
  by (simp add: digits_def digit_val_def lower_def)

lemma digit_val_digits: "d < 36 \<Longrightarrow> digit_val (digits ! d) = Some d"
proof -
  assume d: "d < 36"
  have len: "length digits = 36" by (simp add: digits_def)
  have "digit_val (digits ! d) = map digit_val digits ! d"
    using d len by simp
  also have "\<dots> = Some ([0, 1, 2, 3, 4, 5, 6, 7, 8, 9, 10, 11, 12, 13, 14, 15, 16, 17,
     18, 19, 20, 21, 22, 23, 24, 25, 26, 27, 28, 29, 30, 31, 32, 33, 34, 35] ! d)"
    unfolding digit_val_digits_tab using d by (subst nth_map) simp_all
  also have "[0, 1, 2, 3, 4, 5, 6, 7, 8, 9, 10, 11, 12, 13, 14, 15, 16, 17,
     18, 19, 20, 21, 22, 23, 24, 25, 26, 27, 28, 29, 30, 31, 32, 33, 34, 35] = [0..<36::nat]"
    by (simp add: upt_conv_Cons)
  finally show ?thesis using d by simp
qed

lemma digit_val_udigits_tab:
  "map digit_val (take 16 udigits)
     = map Some [0, 1, 2, 3, 4, 5, 6, 7, 8, 9, 10, 11, 12, 13, 14, 15]"
  by (simp add: udigits_def digit_val_def lower_def)

lemma digit_val_udigits: "d < 16 \<Longrightarrow> digit_val (udigits ! d) = Some d"
proof -
  assume d: "d < 16"
  have len: "length udigits = 17" by (simp add: udigits_def)
  have "digit_val (udigits ! d) = map digit_val (take 16 udigits) ! d"
    using d len by simp
  also have "\<dots> = Some ([0, 1, 2, 3, 4, 5, 6, 7, 8, 9, 10, 11, 12, 13, 14, 15] ! d)"
    unfolding digit_val_udigits_tab using d by (subst nth_map) simp_all
  also have "[0, 1, 2, 3, 4, 5, 6, 7, 8, 9, 10, 11, 12, 13, 14, 15] = [0..<16::nat]"
    by (simp add: upt_conv_Cons)
  finally show ?thesis using d by simp
qed

lemma ParseUint_FormatUint:
  "u < 2 ^ 64 \<Longrightarrow> ParseUint (FormatUint u 10) 10 64 = Inr u"
  unfolding ParseUint_def FormatUint_def
  using ParseUint_loop_formatBits[of 10 digits "2 ^ 64 - 1" u "formatBits digits u 10"]
  by (simp add: formatBits_nonempty digit_val_digits)

lemma ParseUint_FormatUint_over:
  "2 ^ 64 \<le> u \<Longrightarrow> ParseUint (FormatUint u 10) 10 64
     = Inl (NumError ''ParseUint'' (FormatUint u 10) ErrRange)"
  unfolding ParseUint_def FormatUint_def
  using ParseUint_loop_formatBits_over[of 10 digits u "formatBits digits u 10"]
  by (simp add: formatBits_nonempty digit_val_digits)

lemma ParseUint_fmt_X: "ParseUint (fmt_X w) 16 64 = Inr (unat w)"
proof -
  have "unat w \<le> 2 ^ 64 - 1" using unsigned_less[of w, where ?'a = nat] by simp
  then show ?thesis
    unfolding ParseUint_def fmt_X_def
    using ParseUint_loop_formatBits[of 16 udigits "2 ^ 64 - 1" "unat w" "formatBits udigits (unat w) 16"]
    by (simp add: formatBits_nonempty digit_val_udigits)
qed

lemma ParseUint_minus: "ParseUint (CHR ''-'' # s) base bitSize
    = Inl (NumError ''ParseUint'' (CHR ''-'' # s) ErrSyntax)"
  by (simp add: ParseUint_def digit_val_def lower_def)

section \<open>Facts about Status\<close>

lemma Status_cases: "(s::8 word) \<le> 2 \<Longrightarrow> s = 0 \<or> s = 1 \<or> s = 2"
proof -
  assume "s \<le> 2"
  hence "unat s \<le> 2" by (simp add: word_le_nat_alt)
  hence "unat s = 0 \<or> unat s = 1 \<or> unat s = 2" by arith
  thus ?thesis by (auto simp: word_unat_eq_iff)
qed

lemma FormatUint_digit: "u < 10 \<Longrightarrow> FormatUint u 10 = [digits ! u]"
  by (simp add: FormatUint_def formatBits_small)

lemma json_Unmarshal_uint8_FormatUint:
  "json_Unmarshal_uint8 (Some (JNum (FormatUint (unat v) 10))) t = (None, v)"
proof -
  have "unat v < 2 ^ 8" using unsigned_less[of v, where ?'a = nat] by simp
  hence lt: "unat v < 256" by simp
  hence "ParseUint (FormatUint (unat v) 10) 10 64 = Inr (unat v)"
    by (intro ParseUint_FormatUint) simp
  thus ?thesis using lt by (simp add: json_Unmarshal_uint8_def)
qed

text \<open>
  C8: the two renderers are total functions of the eight bits of a Status, so they never
  fail; \<open>String\<close> gives "0", "1", "2" for 0, 1, 2 and "0" for every other value,
  \<open>Pretty\<close> gives "Free", "Busy", "Occupied" for 0, 1, 2 and "Free" for every other
  value.
\<close>
theorem Status_renderers_total:
  "Status_String s = (if s = 1 then ''1'' else if s = 2 then ''2'' else ''0'')
   \<and> Pretty s = (if s = 1 then ''Busy'' else if s = 2 then ''Occupied'' else ''Free'')"
proof (cases "s \<le> 2")
  case True
  then have "s = 0 \<or> s = 1 \<or> s = 2" by (rule Status_cases)
  then show ?thesis
    by (auto simp: Status_String_def Pretty_def forceRange_def inRange_def Occupied_def
          Busy_def Free_def FormatUint_digit digits_def)
next
  case False
  then have "s \<noteq> 1" "s \<noteq> 2" by auto
  with False show ?thesis
    by (simp add: Status_String_def Pretty_def forceRange_def inRange_def Occupied_def
          Busy_def Free_def FormatUint_digit digits_def)
qed

text \<open>
  C6: decoding the decimal literal of an eight-bit integer \<open>v\<close> into a Status that
  held \<open>s\<close>.  For \<open>v\<close> in 0..2 the decode succeeds and assigns \<open>v\<close>, and
  \<open>MarshalJSON\<close> of \<open>v\<close> writes that same literal, so that serialising and
  deserialising gives \<open>v\<close> back.  For every other \<open>v\<close> the decode fails with
  \<open>ErrOutOfRange\<close> and leaves the Status equal to Free, whatever it held.
\<close>
theorem Status_decode_number:
  "Status_UnmarshalJSON (Some (JNum (FormatUint (unat v) 10))) s
     = (if v \<le> 2 then (None, v) else (Some ErrOutOfRange, Free))
   \<and> (v \<le> 2 \<longrightarrow> Status_MarshalJSON v = Inr (JNum (FormatUint (unat v) 10)))"
  by (simp add: Status_UnmarshalJSON_def json_Unmarshal_uint8_FormatUint inRange_def
        Occupied_def Status_MarshalJSON_def json_Marshal_uint8_def)

theorem Status_decode_number_witness:
  "Status_UnmarshalJSON (Some (JNum ''2'')) 1 = (None, 2)
   \<and> Status_MarshalJSON 2 = Inr (JNum ''2'')
   \<and> Status_UnmarshalJSON (Some (JNum ''200'')) 1 = (Some ErrOutOfRange, Free)"
proof -
  have a: "FormatUint 2 10 = ''2''"
    by (simp add: FormatUint_digit digits_def)
  have b: "FormatUint 200 10 = ''200''"
    by (simp add: FormatUint_def formatBits.simps digits_def)
  show ?thesis
    using Status_decode_number[of 2 1] Status_decode_number[of 200 1] by (simp add: a b)
qed

text \<open>
  C10: a number that is not an eight-bit unsigned integer, that is the decimal literal of
  an integer above 255 or a literal with a minus sign: \<open>Status.UnmarshalJSON\<close> fails
  with the \<open>UnmarshalTypeError\<close> of \<open>encoding/json\<close>, which is not
  \<open>ErrOutOfRange\<close>, and the receiver keeps the value \<open>s\<close> it had: it is not reset
  to Free.
\<close>
theorem Status_decode_not_uint8:
  "(255 < n \<longrightarrow>
      Status_UnmarshalJSON (Some (JNum (FormatUint n 10))) s
        = (Some (UnmarshalTypeError (''number '' @ FormatUint n 10)), s))
   \<and> Status_UnmarshalJSON (Some (JNum (''-'' @ FormatUint n 10))) s
        = (Some (UnmarshalTypeError (''number -'' @ FormatUint n 10)), s)"
proof -
  have neg: "Status_UnmarshalJSON (Some (JNum (''-'' @ FormatUint n 10))) s
        = (Some (UnmarshalTypeError (''number -'' @ FormatUint n 10)), s)"
    by (simp add: Status_UnmarshalJSON_def json_Unmarshal_uint8_def ParseUint_minus)
  have big: "Status_UnmarshalJSON (Some (JNum (FormatUint n 10))) s
        = (Some (UnmarshalTypeError (''number '' @ FormatUint n 10)), s)" if n: "255 < n"
  proof (cases "n < 2 ^ 64")
    case True
    then show ?thesis using n
      by (simp add: Status_UnmarshalJSON_def json_Unmarshal_uint8_def ParseUint_FormatUint)
  next
    case False
    then have "2 ^ 64 \<le> n" by simp
    then show ?thesis
      by (simp add: Status_UnmarshalJSON_def json_Unmarshal_uint8_def ParseUint_FormatUint_over)
  qed
  show ?thesis using neg big by simp
qed

theorem Status_decode_not_uint8_witness:
  "Status_UnmarshalJSON (Some (JNum ''256'')) 1 = (Some (UnmarshalTypeError ''number 256''), 1)
   \<and> Status_UnmarshalJSON (Some (JNum ''-1'')) 2 = (Some (UnmarshalTypeError ''number -1''), 2)"
proof -
  have a: "FormatUint 256 10 = ''256''"
    by (simp add: FormatUint_def formatBits.simps digits_def)
  have b: "FormatUint (Suc 0) 10 = ''1''"
    by (simp add: FormatUint_digit digits_def)
  show ?thesis
    using Status_decode_not_uint8[of 256 1] Status_decode_not_uint8[of 1 2] by (simp add: a b)
qed

section \<open>Facts about the formatting of integers\<close>

lemma formatBits_set:
  assumes "2 \<le> base" "base \<le> length tab"
  shows "set (formatBits tab u base) \<subseteq> set (take base tab)"
proof (induction u rule: less_induct)
  case (less u)
  show ?case
  proof (cases "u < base")
    case True
    then have "tab ! u \<in> set (take base tab)"
      using assms by (metis in_set_conv_nth length_take min.absorb2 nth_take)
    then show ?thesis using True by (simp add: formatBits_small)
  next
    case False
    have lt: "u div base < u" using False assms by (simp add: div_less_dividend)
    have md: "u mod base < base" using assms by simp
    then have "tab ! (u mod base) \<in> set (take base tab)"
      using assms by (metis in_set_conv_nth length_take min.absorb2 nth_take)
    then show ?thesis using less.IH[OF lt] False assms by (simp add: formatBits_step)
  qed
qed

lemma formatBits_length:
  assumes "2 \<le> base"
  shows "u < base ^ Suc k \<Longrightarrow> length (formatBits tab u base) \<le> Suc k"
proof (induction k arbitrary: u)
  case 0
  then show ?case by (simp add: formatBits_small)
next
  case (Suc k)
  show ?case
  proof (cases "u < base")
    case True
    then show ?thesis by (simp add: formatBits_small)
  next
    case False
    have "u div base < base ^ Suc k"
      using Suc.prems assms by (simp add: less_mult_imp_div_less mult.commute)
    then have "length (formatBits tab (u div base) base) \<le> Suc k" by (rule Suc.IH)
    then show ?thesis using False assms by (simp add: formatBits_step)
  qed
qed

lemma formatBits_hd:
  assumes "2 \<le> base"
  shows "0 < u \<Longrightarrow> \<exists>d. 0 < d \<and> d < base \<and> hd (formatBits tab u base) = tab ! d"
proof (induction u rule: less_induct)
  case (less u)
  show ?case
  proof (cases "u < base")
    case True
    then show ?thesis using less.prems by (auto simp: formatBits_small)
  next
    case False
    have lt: "u div base < u" using False assms by (simp add: div_less_dividend)
    have pos: "0 < u div base" using False assms by (simp add: div_greater_zero_iff)
    from less.IH[OF lt pos] show ?thesis
      using False assms by (simp add: formatBits_step formatBits_nonempty)
  qed
qed

lemma length_fmt_X: "1 \<le> length (fmt_X w) \<and> length (fmt_X w) \<le> 16"
proof -
  have "unat w < 16 ^ Suc 15" using unsigned_less[of w, where ?'a = nat] by simp
  then have "length (formatBits udigits (unat w) 16) \<le> Suc 15"
    by (intro formatBits_length) simp_all
  moreover have "0 < length (formatBits udigits (unat w) 16)"
    using formatBits_nonempty[of udigits "unat w" 16] by blast
  ultimately show ?thesis by (simp add: fmt_X_def Suc_le_eq)
qed

lemma set_fmt_X: "set (fmt_X w) \<subseteq> set ''0123456789ABCDEF''"
proof -
  have "set (formatBits udigits (unat w) 16) \<subseteq> set (take 16 udigits)"
    by (rule formatBits_set) (simp_all add: udigits_def)
  then show ?thesis by (simp add: fmt_X_def udigits_def)
qed

lemma hd_fmt_X: "w \<noteq> 0 \<Longrightarrow> hd (fmt_X w) \<noteq> CHR ''0''"
proof -
  assume "w \<noteq> 0"
  then have "0 < unat w" by (simp add: unat_gt_0)
  then obtain d where d: "0 < d" "d < 16" "hd (fmt_X w) = udigits ! d"
    using formatBits_hd[of 16 "unat w" udigits] by (auto simp: fmt_X_def)
  have "digit_val (udigits ! d) = Some d" using d by (simp add: digit_val_udigits)
  moreover have "digit_val (CHR ''0'') = Some 0" by (simp add: digit_val_def)
  ultimately show ?thesis using d by auto
qed






section \<open>Facts about JSON strings\<close>

lemma json_string_ascii: "\<forall>c\<in>set s. (of_char c :: nat) < 128 \<Longrightarrow> json_string s = s"
  by (induction s) simp_all

lemma DecodeRune_size_Cons: "1 \<le> DecodeRune_size (c # cs)"
  by (simp add: DecodeRune_size_def Let_def split: option.split prod.split)

lemma json_string_valid: "ValidString s \<Longrightarrow> json_string s = s"
proof (induction s rule: json_string.induct)
  case 1
  show ?case by simp
next
  case (2 c cs)
  show ?case
  proof (cases "(of_char c :: nat) < 128")
    case True
    then show ?thesis using 2 by simp
  next
    case False
    define size where "size = DecodeRune_size (c # cs)"
    have s1: "size \<noteq> 1" and v: "ValidString (drop (size - 1) cs)"
      using "2.prems" False by (auto simp: size_def Let_def split: if_splits)
    have pos: "1 \<le> size" unfolding size_def by (rule DecodeRune_size_Cons)
    have ih: "json_string (drop (size - 1) cs) = drop (size - 1) cs"
      using "2.IH"(3)[OF False size_def s1 v] .
    have "take size (c # cs) = c # take (size - 1) cs"
      using pos by (cases size) simp_all
    then show ?thesis using False s1 ih by (simp add: size_def[symmetric] Let_def)
  qed
qed

lemma hex_ascii: "c \<in> set ''0123456789ABCDEF'' \<Longrightarrow> (of_char c :: nat) < 128"
  by auto

lemma json_string_fmt_X: "json_string (fmt_X w) = fmt_X w"
  using set_fmt_X[of w] by (intro json_string_ascii ballI hex_ascii) blast

section \<open>Resource: the JSON form that is written\<close>

lemma Resource_MarshalJSON_ok:
  "inRange (Status r) \<Longrightarrow> 0 \<le> Year (Since r) \<Longrightarrow> Year (Since r) < 10000 \<Longrightarrow>
   Resource_MarshalJSON r =
     Inr (JObj [(''id'', JStr (fmt_X (Id_r r))),
                (''friendlyName'', JStr (json_string (FriendlyName r))),
                (''status'', JNum (FormatUint (unat (Status r)) 10)),
                (''since'', JStr (Format_RFC3339Nano (Since r)))])"
  by (simp add: Resource_MarshalJSON_def json_Marshal_tmp_def Status_MarshalJSON_def
        json_Marshal_uint8_def Time_MarshalJSON_def json_string_fmt_X)

lemma Resource_MarshalJSON_Inr:
  "Resource_MarshalJSON r = Inr j \<Longrightarrow>
   inRange (Status r) \<and> 0 \<le> Year (Since r) \<and> Year (Since r) < 10000"
  by (auto simp: Resource_MarshalJSON_def json_Marshal_tmp_def Status_MarshalJSON_def
        json_Marshal_uint8_def Time_MarshalJSON_def split: if_splits)

lemma fmt_X_0: "fmt_X 0 = ''0''"
  by (simp add: fmt_X_def formatBits_small udigits_def)

text \<open>
  C2, as the code has it: when \<open>MarshalJSON\<close> succeeds, the member \<open>id\<close> is the
  identifier in upper-case hexadecimal with no prefix and no padding: between 1 and 16
  digits, "0" for the identifier 0 and no leading zero otherwise, and \<open>ParseUint\<close>
  in base 16 reads it back as the identifier.
\<close>

theorem Resource_MarshalJSON_id_hex:
  assumes "Resource_MarshalJSON r = Inr j"
  shows "j = JObj [(''id'', JStr (fmt_X (Id_r r))),
                   (''friendlyName'', JStr (json_string (FriendlyName r))),
                   (''status'', JNum (FormatUint (unat (Status r)) 10)),
                   (''since'', JStr (Format_RFC3339Nano (Since r)))]
     \<and> set (fmt_X (Id_r r)) \<subseteq> set ''0123456789ABCDEF''
     \<and> 1 \<le> length (fmt_X (Id_r r)) \<and> length (fmt_X (Id_r r)) \<le> 16
     \<and> (if Id_r r = 0 then fmt_X (Id_r r) = ''0'' else hd (fmt_X (Id_r r)) \<noteq> CHR ''0'')
     \<and> ParseUint (fmt_X (Id_r r)) 16 64 = Inr (unat (Id_r r))"
proof -
  from assms have ok: "inRange (Status r)" "0 \<le> Year (Since r)" "Year (Since r) < 10000"
    by (auto dest: Resource_MarshalJSON_Inr)
  have "j = JObj [(''id'', JStr (fmt_X (Id_r r))),
                   (''friendlyName'', JStr (json_string (FriendlyName r))),
                   (''status'', JNum (FormatUint (unat (Status r)) 10)),
                   (''since'', JStr (Format_RFC3339Nano (Since r)))]"
    using assms Resource_MarshalJSON_ok[OF ok] by simp
  moreover have "if Id_r r = 0 then fmt_X (Id_r r) = ''0'' else hd (fmt_X (Id_r r)) \<noteq> CHR ''0''"
    by (simp add: fmt_X_0 hd_fmt_X)
  ultimately show ?thesis
    using set_fmt_X[of "Id_r r"] length_fmt_X[of "Id_r r"] ParseUint_fmt_X[of "Id_r r"]
    by simp
qed

lemma formatBits_example: "formatBits udigits 0x0123456789ABCDEF 16 = ''123456789ABCDEF''"
  by (simp add: formatBits.simps udigits_def)

lemma fmt_X_example: "fmt_X 0x0123456789ABCDEF = ''123456789ABCDEF''"
  by (simp add: fmt_X_def formatBits_example)


lemma formatDateTime_example:
  "formatDateTime \<lparr>Year = 2006, Month = 1, Day = 2, Hour = 15, Minute = 4, Second = 5,
      Nanosecond = 0, ZoneOffset = 0\<rparr> = ''2006-01-02T15:04:05''"
  by (simp add: formatDateTime_def appendInt_def formatBits.simps digits_def)

lemma Status_MarshalJSON_1: "Status_MarshalJSON 1 = Inr (JNum ''1'')"
  by (simp add: Status_MarshalJSON_def json_Marshal_uint8_def inRange_def Occupied_def
        FormatUint_digit digits_def)

theorem Resource_MarshalJSON_id_hex_witness:
  "Resource_MarshalJSON \<lparr>Id_r = 255, FriendlyName = ''My Resource'', Status = 1,
      Since = \<lparr>Year = 2006, Month = 1, Day = 2, Hour = 15, Minute = 4, Second = 5,
        Nanosecond = 0, ZoneOffset = 0\<rparr>\<rparr>
    = Inr (JObj [(''id'', JStr ''FF''), (''friendlyName'', JStr ''My Resource''),
                 (''status'', JNum ''1''), (''since'', JStr ''2006-01-02T15:04:05Z'')])
   \<and> ParseUint ''FF'' 16 64 = Inr 255"
proof -
  let ?r = "\<lparr>Id_r = 255, FriendlyName = ''My Resource'', Status = 1,
      Since = \<lparr>Year = 2006, Month = 1, Day = 2, Hour = 15, Minute = 4, Second = 5,
        Nanosecond = 0, ZoneOffset = 0\<rparr>\<rparr>"
  have x: "fmt_X 255 = ''FF''"
    by (simp add: fmt_X_def formatBits.simps udigits_def)
  have m: "Resource_MarshalJSON ?r
    = Inr (JObj [(''id'', JStr ''FF''), (''friendlyName'', JStr ''My Resource''),
                 (''status'', JNum ''1''), (''since'', JStr ''2006-01-02T15:04:05Z'')])"
    by (simp add: Resource_MarshalJSON_def json_Marshal_tmp_def Status_MarshalJSON_1
          Time_MarshalJSON_def Format_RFC3339Nano_def formatDateTime_example formatNano_def
          formatZone_def x del: One_nat_def)
  show ?thesis
    using Resource_MarshalJSON_id_hex[OF m] m by (simp add: x)
qed

text \<open>
  C2 as stated fails: the identifier 0x0123456789ABCDEF is written with fifteen digits,
  not as a zero-padded string of sixteen.
\<close>

theorem Resource_MarshalJSON_id_not_padded:
  "Resource_MarshalJSON \<lparr>Id_r = 0x0123456789ABCDEF, FriendlyName = ''My Resource'', Status = 1,
      Since = \<lparr>Year = 2006, Month = 1, Day = 2, Hour = 15, Minute = 4, Second = 5,
        Nanosecond = 0, ZoneOffset = 0\<rparr>\<rparr>
    = Inr (JObj [(''id'', JStr ''123456789ABCDEF''), (''friendlyName'', JStr ''My Resource''),
                 (''status'', JNum ''1''), (''since'', JStr ''2006-01-02T15:04:05Z'')])
   \<and> length ''123456789ABCDEF'' \<noteq> 16"
  by (simp add: Resource_MarshalJSON_def json_Marshal_tmp_def Status_MarshalJSON_1
        Time_MarshalJSON_def Format_RFC3339Nano_def formatDateTime_example formatNano_def
        formatZone_def fmt_X_example del: One_nat_def)

text \<open>
  C4: for a Resource whose status is out of range, \<open>MarshalJSON\<close> fails: the result
  is the error alone, with no JSON text, and the error is \<open>ErrOutOfRange\<close> as
  \<open>json.Marshal\<close> passes on the error of a \<open>MarshalJSON\<close> method, inside a
  \<open>MarshalerError\<close>.
\<close>

theorem Resource_MarshalJSON_out_of_range:
  "\<not> inRange (Status r) \<Longrightarrow> Resource_MarshalJSON r = Inl (MarshalerError ErrOutOfRange)"
  by (simp add: Resource_MarshalJSON_def json_Marshal_tmp_def Status_MarshalJSON_def)

theorem Resource_MarshalJSON_out_of_range_witness:
  "\<not> inRange 3
   \<and> Resource_MarshalJSON \<lparr>Id_r = 1, FriendlyName = ''x'', Status = 3, Since = zeroTime\<rparr>
       = Inl (MarshalerError ErrOutOfRange)"
proof -
  have h: "\<not> inRange (Status \<lparr>Id_r = 1, FriendlyName = ''x'', Status = 3, Since = zeroTime\<rparr>)"
    by (simp add: inRange_def Occupied_def)
  show ?thesis
    using Resource_MarshalJSON_out_of_range[OF h] h by simp
qed

section \<open>Resource: the line of text\<close>











section \<open>Resource: reading the JSON form\<close>

lemma decode_members_append:
  "decode_members (xs @ ys) tmp saved =
     (case decode_members xs tmp saved of
        Inl stop \<Rightarrow> Inl stop
      | Inr (tmp', saved') \<Rightarrow> decode_members ys tmp' saved')"
  by (induction xs arbitrary: tmp saved) (auto split: sum.split prod.split)

lemma decode_member_other:
  assumes "decode_member k v tmp saved = Inr (tmp', saved')"
  shows "field_of_key k \<noteq> Some F_Id \<Longrightarrow> tmp_Id tmp' = tmp_Id tmp"
    and "field_of_key k \<noteq> Some F_FriendlyName \<Longrightarrow> tmp_FriendlyName tmp' = tmp_FriendlyName tmp"
    and "field_of_key k \<noteq> Some F_Status \<Longrightarrow> tmp_Status tmp' = tmp_Status tmp"
    and "field_of_key k \<noteq> Some F_Since \<Longrightarrow> tmp_Since tmp' = tmp_Since tmp"
  using assms
  by (auto simp: decode_member_def split: option.splits field.splits prod.splits)

lemma decode_members_absent:
  assumes "decode_members ms tmp saved = Inr (tmp', saved')"
  shows "\<forall>m\<in>set ms. field_of_key (fst m) \<noteq> Some F_Id \<Longrightarrow> tmp_Id tmp' = tmp_Id tmp"
    and "\<forall>m\<in>set ms. field_of_key (fst m) \<noteq> Some F_FriendlyName
           \<Longrightarrow> tmp_FriendlyName tmp' = tmp_FriendlyName tmp"
    and "\<forall>m\<in>set ms. field_of_key (fst m) \<noteq> Some F_Status \<Longrightarrow> tmp_Status tmp' = tmp_Status tmp"
    and "\<forall>m\<in>set ms. field_of_key (fst m) \<noteq> Some F_Since \<Longrightarrow> tmp_Since tmp' = tmp_Since tmp"
  using assms
proof (induction ms arbitrary: tmp saved)
  case Nil
  { case 1 then show ?case by simp }
  { case 2 then show ?case by simp }
  { case 3 then show ?case by simp }
  { case 4 then show ?case by simp }
next
  case (Cons m ms)
  obtain k v where m: "m = (k, v)" by (cases m)
  { case 1
    from 1(2) obtain t1 s1 where st: "decode_member k v tmp saved = Inr (t1, s1)"
        and rest: "decode_members ms t1 s1 = Inr (tmp', saved')"
      by (auto simp: m split: sum.splits prod.splits)
    show ?case using Cons.IH(1)[OF _ rest] decode_member_other(1)[OF st] 1(1) by (simp add: m) }
  { case 2
    from 2(2) obtain t1 s1 where st: "decode_member k v tmp saved = Inr (t1, s1)"
        and rest: "decode_members ms t1 s1 = Inr (tmp', saved')"
      by (auto simp: m split: sum.splits prod.splits)
    show ?case using Cons.IH(2)[OF _ rest] decode_member_other(2)[OF st] 2(1) by (simp add: m) }
  { case 3
    from 3(2) obtain t1 s1 where st: "decode_member k v tmp saved = Inr (t1, s1)"
        and rest: "decode_members ms t1 s1 = Inr (tmp', saved')"
      by (auto simp: m split: sum.splits prod.splits)
    show ?case using Cons.IH(3)[OF _ rest] decode_member_other(3)[OF st] 3(1) by (simp add: m) }
  { case 4
    from 4(2) obtain t1 s1 where st: "decode_member k v tmp saved = Inr (t1, s1)"
        and rest: "decode_members ms t1 s1 = Inr (tmp', saved')"
      by (auto simp: m split: sum.splits prod.splits)
    show ?case using Cons.IH(4)[OF _ rest] decode_member_other(4)[OF st] 4(1) by (simp add: m) }
qed


lemma json_Unmarshal_tmp_absent:
  assumes "json_Unmarshal_tmp (Some (JObj ms)) tmp0 = (None, tmp)"
  shows "\<forall>m\<in>set ms. field_of_key (fst m) \<noteq> Some F_Id \<Longrightarrow> tmp_Id tmp = tmp_Id tmp0"
    and "\<forall>m\<in>set ms. field_of_key (fst m) \<noteq> Some F_FriendlyName
           \<Longrightarrow> tmp_FriendlyName tmp = tmp_FriendlyName tmp0"
    and "\<forall>m\<in>set ms. field_of_key (fst m) \<noteq> Some F_Status \<Longrightarrow> tmp_Status tmp = tmp_Status tmp0"
    and "\<forall>m\<in>set ms. field_of_key (fst m) \<noteq> Some F_Since \<Longrightarrow> tmp_Since tmp = tmp_Since tmp0"
proof -
  from assms have d: "decode_members ms tmp0 None = Inr (tmp, None)"
    by (auto simp: json_Unmarshal_tmp_def split: sum.splits prod.splits)
  show "\<forall>m\<in>set ms. field_of_key (fst m) \<noteq> Some F_Id \<Longrightarrow> tmp_Id tmp = tmp_Id tmp0"
    and "\<forall>m\<in>set ms. field_of_key (fst m) \<noteq> Some F_FriendlyName
           \<Longrightarrow> tmp_FriendlyName tmp = tmp_FriendlyName tmp0"
    and "\<forall>m\<in>set ms. field_of_key (fst m) \<noteq> Some F_Status \<Longrightarrow> tmp_Status tmp = tmp_Status tmp0"
    and "\<forall>m\<in>set ms. field_of_key (fst m) \<noteq> Some F_Since \<Longrightarrow> tmp_Since tmp = tmp_Since tmp0"
    using decode_members_absent[OF d] by blast+
qed


lemma Resource_UnmarshalJSON_decoded:
  "json_Unmarshal_tmp raw zero_tmp = (None, tmp) \<Longrightarrow>
   Resource_UnmarshalJSON raw r =
     (case ParseUint (if tmp_Id tmp = [] then ''0'' else tmp_Id tmp) 16 64 of
        Inl err \<Rightarrow> (Some err, r\<lparr>FriendlyName := tmp_FriendlyName tmp,
                                 Status := tmp_Status tmp, Since := tmp_Since tmp\<rparr>)
      | Inr n \<Rightarrow> (None, r\<lparr>FriendlyName := tmp_FriendlyName tmp,
                            Status := tmp_Status tmp, Since := tmp_Since tmp,
                            Id_r := of_nat n\<rparr>))"
  by (simp add: Resource_UnmarshalJSON_def Let_def split: sum.split)

lemma ParseUint_0: "ParseUint ''0'' 16 64 = Inr 0"
  by (simp add: ParseUint_def digit_val_def maxUint64_def)

lemma hex_digit_val:
  assumes "digit_val c = Some d" "d < 16"
  shows "c \<in> set ''0123456789abcdefABCDEF''"
proof -
  define n where "n = (of_char c :: nat)"
  have "(48 \<le> n \<and> n < 58) \<or> (97 \<le> n \<and> n < 103) \<or> (65 \<le> n \<and> n < 71)"
    using assms by (auto simp: digit_val_def lower_def n_def[symmetric] Let_def split: if_splits)
  then have "n \<in> set ([48..<58] @ [97..<103] @ [65..<71])"
    by (simp only: set_append set_upt atLeastLessThan_iff Un_iff)
  moreover have "map of_char ''0123456789abcdefABCDEF'' = [48..<58] @ [97..<103] @ [65..<71::nat]"
    by (simp add: upt_conv_Cons)
  ultimately have "of_char c \<in> set (map (of_char :: char \<Rightarrow> nat) ''0123456789abcdefABCDEF'')"
    by (simp only: n_def)
  then obtain c' where c': "c' \<in> set ''0123456789abcdefABCDEF''" "(of_char c' :: nat) = of_char c"
    unfolding set_map by (rule imageE) simp
  from c'(2) have "c' = c" by (simp only: of_char_eq_iff)
  with c'(1) show ?thesis by (simp only:)
qed

lemma ParseUint_loop_bad_digit:
  "\<exists>c\<in>set s. \<forall>d. digit_val c = Some d \<longrightarrow> base \<le> d \<Longrightarrow>
   \<exists>e. ParseUint_loop base m s0 n s = Inl (NumError ''ParseUint'' s0 e)"
proof (induction s arbitrary: n)
  case Nil
  then show ?case by simp
next
  case (Cons c cs)
  show ?case
  proof (cases "\<forall>d. digit_val c = Some d \<longrightarrow> base \<le> d")
    case True
    then show ?thesis
      unfolding ParseUint_loop.simps Let_def by (cases "digit_val c") simp_all
  next
    case False
    with Cons.prems have "\<exists>c\<in>set cs. \<forall>d. digit_val c = Some d \<longrightarrow> base \<le> d" by auto
    from Cons.IH[OF this] show ?thesis
      unfolding ParseUint_loop.simps Let_def by (simp split: option.split)
  qed
qed

lemma ParseUint_not_hex:
  assumes "\<exists>c\<in>set s. c \<notin> set ''0123456789abcdefABCDEF''"
  shows "\<exists>e. ParseUint s 16 64 = Inl (NumError ''ParseUint'' s e)"
proof -
  from assms obtain c where c: "c \<in> set s" "c \<notin> set ''0123456789abcdefABCDEF''" by blast
  have "\<forall>d. digit_val c = Some d \<longrightarrow> 16 \<le> d"
    using hex_digit_val[of c] c(2) by (meson not_less)
  with c(1) have "\<exists>c\<in>set s. \<forall>d. digit_val c = Some d \<longrightarrow> 16 \<le> d" by blast
  from ParseUint_loop_bad_digit[OF this, of "2 ^ 64 - 1" s 0] show ?thesis
    by (auto simp: ParseUint_def)
qed

lemma field_of_key_id: "field_of_key ''id'' = Some F_Id"
  by (simp add: field_of_key_def char_of_eq_iff)

lemma field_of_key_friendlyName: "field_of_key ''friendlyName'' = Some F_FriendlyName"
  by (simp add: field_of_key_def char_of_eq_iff)

lemma field_of_key_status: "field_of_key ''status'' = Some F_Status"
  by (simp add: field_of_key_def char_of_eq_iff)

lemma field_of_key_since: "field_of_key ''since'' = Some F_Since"
  by (simp add: field_of_key_def char_of_eq_iff)





lemma decode_members_id_last:
  assumes "decode_members (pre @ (k, JStr s) # post) tmp0 saved0 = Inr (tmp, saved)"
    and "field_of_key k = Some F_Id"
    and "\<forall>m\<in>set post. field_of_key (fst m) \<noteq> Some F_Id"
  shows "tmp_Id tmp = s"
proof -
  from assms(1) obtain t1 s1 where
      p: "decode_members pre tmp0 saved0 = Inr (t1, s1)"
      and r: "decode_members ((k, JStr s) # post) t1 s1 = Inr (tmp, saved)"
    by (auto simp: decode_members_append split: sum.splits prod.splits)
  have "decode_member k (JStr s) t1 s1 = Inr (t1\<lparr>tmp_Id := s\<rparr>, s1)"
    by (simp add: decode_member_def assms(2) decode_string_def)
  with r have "decode_members post (t1\<lparr>tmp_Id := s\<rparr>) s1 = Inr (tmp, saved)" by simp
  from decode_members_absent(1)[OF this assms(3)] show ?thesis by simp
qed

lemma Status_UnmarshalJSON_1: "Status_UnmarshalJSON (Some (JNum ''1'')) s = (None, 1)"
proof -
  have "ParseUint ''1'' 10 64 = Inr 1"
    by (simp add: ParseUint_def digit_val_def maxUint64_def)
  then show ?thesis
    by (simp add: Status_UnmarshalJSON_def json_Unmarshal_uint8_def inRange_def Occupied_def)
qed

lemma Status_UnmarshalJSON_2: "Status_UnmarshalJSON (Some (JNum ''2'')) s = (None, 2)"
proof -
  have "ParseUint ''2'' 10 64 = Inr 2"
    by (simp add: ParseUint_def digit_val_def maxUint64_def)
  then show ?thesis
    by (simp add: Status_UnmarshalJSON_def json_Unmarshal_uint8_def inRange_def Occupied_def)
qed

lemma parseRFC3339_example:
  "parseRFC3339 ''2006-01-02T15:04:05Z''
     = Some \<lparr>Year = 2006, Month = 1, Day = 2, Hour = 15, Minute = 4, Second = 5,
          Nanosecond = 0, ZoneOffset = 0\<rparr>"
  by (simp add: parseRFC3339_def parseUint_in_def slice_def isDigit_def daysIn_def isLeap_def
        parseZone_def)

text \<open>
  C5: an object that \<open>json.Unmarshal\<close> reads into the temporary struct without error.
  A field with no member in the object gets its zero value in the receiver: the empty
  name, Free, the zero time.  With no identifier member, or with the identifier read as
  the empty string, the call succeeds and the identifier is 0.  With an identifier that
  has a character that is not a hexadecimal digit, the call fails with the
  \<open>NumError\<close> of \<open>strconv.ParseUint\<close>.  The identifier read is the string of the last
  identifier member.
\<close>

theorem Resource_UnmarshalJSON_partial:
  assumes "json_Unmarshal_tmp (Some (JObj ms)) zero_tmp = (None, tmp)"
  shows "((\<forall>m\<in>set ms. field_of_key (fst m) \<noteq> Some F_FriendlyName) \<longrightarrow>
            FriendlyName (snd (Resource_UnmarshalJSON (Some (JObj ms)) r)) = [])
       \<and> ((\<forall>m\<in>set ms. field_of_key (fst m) \<noteq> Some F_Status) \<longrightarrow>
            Status (snd (Resource_UnmarshalJSON (Some (JObj ms)) r)) = Free)
       \<and> ((\<forall>m\<in>set ms. field_of_key (fst m) \<noteq> Some F_Since) \<longrightarrow>
            Since (snd (Resource_UnmarshalJSON (Some (JObj ms)) r)) = zeroTime)
       \<and> ((\<forall>m\<in>set ms. field_of_key (fst m) \<noteq> Some F_Id) \<or> tmp_Id tmp = [] \<longrightarrow>
            fst (Resource_UnmarshalJSON (Some (JObj ms)) r) = None
            \<and> Id_r (snd (Resource_UnmarshalJSON (Some (JObj ms)) r)) = 0)
       \<and> ((\<exists>c\<in>set (tmp_Id tmp). c \<notin> set ''0123456789abcdefABCDEF'') \<longrightarrow>
            (\<exists>e. fst (Resource_UnmarshalJSON (Some (JObj ms)) r)
                   = Some (NumError ''ParseUint'' (tmp_Id tmp) e)))
       \<and> (\<forall>pre k s post. ms = pre @ (k, JStr s) # post \<and> field_of_key k = Some F_Id
              \<and> (\<forall>m\<in>set post. field_of_key (fst m) \<noteq> Some F_Id) \<longrightarrow> tmp_Id tmp = s)"
proof -
  note res = Resource_UnmarshalJSON_decoded[OF assms, of r]
  note absent = json_Unmarshal_tmp_absent[OF assms]
  have name: "FriendlyName (snd (Resource_UnmarshalJSON (Some (JObj ms)) r)) = tmp_FriendlyName tmp"
    unfolding res by (simp split: sum.split)
  have status: "Status (snd (Resource_UnmarshalJSON (Some (JObj ms)) r)) = tmp_Status tmp"
    unfolding res by (simp split: sum.split)
  have since: "Since (snd (Resource_UnmarshalJSON (Some (JObj ms)) r)) = tmp_Since tmp"
    unfolding res by (simp split: sum.split)
  have c1: "(\<forall>m\<in>set ms. field_of_key (fst m) \<noteq> Some F_FriendlyName) \<longrightarrow>
            FriendlyName (snd (Resource_UnmarshalJSON (Some (JObj ms)) r)) = []"
    using absent(2) by (simp add: name zero_tmp_def)
  have c2: "(\<forall>m\<in>set ms. field_of_key (fst m) \<noteq> Some F_Status) \<longrightarrow>
            Status (snd (Resource_UnmarshalJSON (Some (JObj ms)) r)) = Free"
    using absent(3) by (simp add: status zero_tmp_def Free_def)
  have c3: "(\<forall>m\<in>set ms. field_of_key (fst m) \<noteq> Some F_Since) \<longrightarrow>
            Since (snd (Resource_UnmarshalJSON (Some (JObj ms)) r)) = zeroTime"
    using absent(4) by (simp add: since zero_tmp_def)
  have e: "tmp_Id tmp = [] \<Longrightarrow> fst (Resource_UnmarshalJSON (Some (JObj ms)) r) = None
            \<and> Id_r (snd (Resource_UnmarshalJSON (Some (JObj ms)) r)) = 0"
    unfolding res by (simp add: ParseUint_0)
  have c4: "(\<forall>m\<in>set ms. field_of_key (fst m) \<noteq> Some F_Id) \<or> tmp_Id tmp = [] \<longrightarrow>
            fst (Resource_UnmarshalJSON (Some (JObj ms)) r) = None
            \<and> Id_r (snd (Resource_UnmarshalJSON (Some (JObj ms)) r)) = 0"
    using absent(1) e by (auto simp: zero_tmp_def)
  have c5: "(\<exists>c\<in>set (tmp_Id tmp). c \<notin> set ''0123456789abcdefABCDEF'') \<longrightarrow>
            (\<exists>e. fst (Resource_UnmarshalJSON (Some (JObj ms)) r)
                   = Some (NumError ''ParseUint'' (tmp_Id tmp) e))"
  proof
    assume bad: "\<exists>c\<in>set (tmp_Id tmp). c \<notin> set ''0123456789abcdefABCDEF''"
    then have ne: "tmp_Id tmp \<noteq> []" by auto
    from ParseUint_not_hex[OF bad] obtain e where
      "ParseUint (tmp_Id tmp) 16 64 = Inl (NumError ''ParseUint'' (tmp_Id tmp) e)" ..
    then show "\<exists>e. fst (Resource_UnmarshalJSON (Some (JObj ms)) r)
                   = Some (NumError ''ParseUint'' (tmp_Id tmp) e)"
      unfolding res using ne by simp
  qed
  have d: "decode_members ms zero_tmp None = Inr (tmp, None)"
    using assms by (auto simp: json_Unmarshal_tmp_def split: sum.splits prod.splits)
  have c6: "\<forall>pre k s post. ms = pre @ (k, JStr s) # post \<and> field_of_key k = Some F_Id
              \<and> (\<forall>m\<in>set post. field_of_key (fst m) \<noteq> Some F_Id) \<longrightarrow> tmp_Id tmp = s"
    using d decode_members_id_last by blast
  show ?thesis by (intro conjI c1 c2 c3 c4 c5 c6)
qed

text \<open>
  C9: the input is read into the temporary struct without error, and the identifier read
  is not empty and has a character that is not a hexadecimal digit.  Then
  \<open>UnmarshalJSON\<close> returns the error of \<open>strconv.ParseUint\<close>, and the receiver has
  the name, the status and the time of the input, with the identifier it had before.
\<close>

theorem Resource_UnmarshalJSON_not_atomic:
  assumes "json_Unmarshal_tmp raw zero_tmp = (None, tmp)"
    and "\<exists>c\<in>set (tmp_Id tmp). c \<notin> set ''0123456789abcdefABCDEF''"
  shows "\<exists>e. Resource_UnmarshalJSON raw r
           = (Some (NumError ''ParseUint'' (tmp_Id tmp) e),
              r\<lparr>FriendlyName := tmp_FriendlyName tmp, Status := tmp_Status tmp,
                Since := tmp_Since tmp\<rparr>)"
proof -
  from assms(2) have ne: "tmp_Id tmp \<noteq> []" by auto
  from ParseUint_not_hex[OF assms(2)] obtain e where
    "ParseUint (tmp_Id tmp) 16 64 = Inl (NumError ''ParseUint'' (tmp_Id tmp) e)" ..
  then show ?thesis
    unfolding Resource_UnmarshalJSON_decoded[OF assms(1), of r] using ne by simp
qed


theorem Resource_UnmarshalJSON_partial_witness:
  "json_Unmarshal_tmp (Some (JObj [(''id'', JStr ''zz''), (''status'', JNum ''1'')])) zero_tmp
     = (None, zero_tmp\<lparr>tmp_Id := ''zz'', tmp_Status := 1\<rparr>)
   \<and> FriendlyName (snd (Resource_UnmarshalJSON
        (Some (JObj [(''id'', JStr ''zz''), (''status'', JNum ''1'')]))
        \<lparr>Id_r = 5, FriendlyName = ''old'', Status = 2, Since = zeroTime\<rparr>)) = []
   \<and> (\<exists>e. fst (Resource_UnmarshalJSON
        (Some (JObj [(''id'', JStr ''zz''), (''status'', JNum ''1'')]))
        \<lparr>Id_r = 5, FriendlyName = ''old'', Status = 2, Since = zeroTime\<rparr>)
         = Some (NumError ''ParseUint'' ''zz'' e))
   \<and> json_Unmarshal_tmp (Some (JObj [])) zero_tmp = (None, zero_tmp)
   \<and> Resource_UnmarshalJSON (Some (JObj []))
        \<lparr>Id_r = 5, FriendlyName = ''old'', Status = 2, Since = zeroTime\<rparr>
      = (None, \<lparr>Id_r = 0, FriendlyName = [], Status = Free, Since = zeroTime\<rparr>)"
proof -
  let ?r = "\<lparr>Id_r = 5, FriendlyName = ''old'', Status = 2, Since = zeroTime\<rparr>"
  let ?ms = "[(''id'', JStr ''zz''), (''status'', JNum ''1'')]"
  have a: "json_Unmarshal_tmp (Some (JObj ?ms)) zero_tmp
     = (None, zero_tmp\<lparr>tmp_Id := ''zz'', tmp_Status := 1\<rparr>)"
    by (simp add: json_Unmarshal_tmp_def decode_member_def field_of_key_id field_of_key_status
          decode_string_def Status_UnmarshalJSON_1)
  have b: "json_Unmarshal_tmp (Some (JObj [])) zero_tmp = (None, zero_tmp)"
    by (simp add: json_Unmarshal_tmp_def)
  have n: "FriendlyName (snd (Resource_UnmarshalJSON (Some (JObj ?ms)) ?r)) = []"
    and e: "\<exists>e. fst (Resource_UnmarshalJSON (Some (JObj ?ms)) ?r)
         = Some (NumError ''ParseUint'' ''zz'' e)"
    using Resource_UnmarshalJSON_partial[OF a, of ?r]
    by (simp_all add: field_of_key_id field_of_key_status)
  have z: "Resource_UnmarshalJSON (Some (JObj [])) ?r
      = (None, \<lparr>Id_r = 0, FriendlyName = [], Status = Free, Since = zeroTime\<rparr>)"
    using Resource_UnmarshalJSON_partial[OF b, of ?r]
    by (cases "Resource_UnmarshalJSON (Some (JObj [])) ?r";
        cases "snd (Resource_UnmarshalJSON (Some (JObj [])) ?r)") simp
  show ?thesis by (intro conjI a n e b z)
qed

theorem Resource_UnmarshalJSON_not_atomic_witness:
  "\<exists>e. Resource_UnmarshalJSON
      (Some (JObj [(''friendlyName'', JStr ''new''), (''status'', JNum ''2''),
                   (''since'', JStr ''2006-01-02T15:04:05Z''), (''id'', JStr ''zz'')]))
      \<lparr>Id_r = 5, FriendlyName = ''old'', Status = 0, Since = zeroTime\<rparr>
    = (Some (NumError ''ParseUint'' ''zz'' e),
       \<lparr>Id_r = 5, FriendlyName = ''new'', Status = 2,
          Since = \<lparr>Year = 2006, Month = 1, Day = 2, Hour = 15, Minute = 4, Second = 5,
            Nanosecond = 0, ZoneOffset = 0\<rparr>\<rparr>)"
proof -
  let ?t = "\<lparr>Year = 2006, Month = 1, Day = 2, Hour = 15, Minute = 4, Second = 5,
            Nanosecond = 0, ZoneOffset = 0\<rparr>"
  have a: "json_Unmarshal_tmp
      (Some (JObj [(''friendlyName'', JStr ''new''), (''status'', JNum ''2''),
                   (''since'', JStr ''2006-01-02T15:04:05Z''), (''id'', JStr ''zz'')])) zero_tmp
     = (None, \<lparr>tmp_Id = ''zz'', tmp_FriendlyName = ''new'', tmp_Status = 2, tmp_Since = ?t\<rparr>)"
    by (simp add: json_Unmarshal_tmp_def decode_member_def field_of_key_id field_of_key_status
          field_of_key_friendlyName field_of_key_since decode_string_def Status_UnmarshalJSON_2
          Time_UnmarshalJSON_def parseRFC3339_example zero_tmp_def del: One_nat_def)
  have b: "\<exists>c\<in>set (tmp_Id \<lparr>tmp_Id = ''zz'', tmp_FriendlyName = ''new'', tmp_Status = 2,
      tmp_Since = ?t\<rparr>). c \<notin> set ''0123456789abcdefABCDEF''"
    by simp
  show ?thesis
    using Resource_UnmarshalJSON_not_atomic[OF a b,
        of "\<lparr>Id_r = 5, FriendlyName = ''old'', Status = 0, Since = zeroTime\<rparr>"]
    by simp
qed

end
